theory Spec2Isabelle
  imports
    Complex_Main
    "HOL-Library.AList"
    "HOL-Library.Char_ord"
    "HOL-Library.List_Lexorder"
    "HOL-Library.Multiset"
    "HOL-Library.Sublist"
begin

section \<open>Strings\<close>

text \<open>
  A Python \<open>str\<close> is modelled by its UTF-8 encoding, a \<^typ>\<open>string\<close>: the files are opened
  with \<open>encoding="utf-8"\<close>. Two strings are equal iff their encodings are, and the order of
  \<open>str\<close> (by code point) is the lexicographic order of the encodings (by byte), which is the
  order of \<^typ>\<open>string\<close> here.
\<close>

text \<open>
  The characters \<open>str.strip()\<close> removes, those with \<open>str.isspace()\<close>, each as its UTF-8
  encoding: U+0009..U+000D, U+001C..U+0020, U+0085, U+00A0, U+1680, U+2000..U+200A, U+2028,
  U+2029, U+202F, U+205F, U+3000.
\<close>

definition whitespace :: "string list" where
  "whitespace =
     map (\<lambda>c. [c])
       [CHR 0x09, CHR 0x0A, CHR 0x0B, CHR 0x0C, CHR 0x0D,
        CHR 0x1C, CHR 0x1D, CHR 0x1E, CHR 0x1F, CHR 0x20] @
     [[CHR 0xC2, CHR 0x85], [CHR 0xC2, CHR 0xA0], [CHR 0xE1, CHR 0x9A, CHR 0x80]] @
     map (\<lambda>c. [CHR 0xE2, CHR 0x80, c])
       [CHR 0x80, CHR 0x81, CHR 0x82, CHR 0x83, CHR 0x84, CHR 0x85, CHR 0x86, CHR 0x87,
        CHR 0x88, CHR 0x89, CHR 0x8A, CHR 0xA8, CHR 0xA9, CHR 0xAF] @
     [[CHR 0xE2, CHR 0x81, CHR 0x9F], [CHR 0xE3, CHR 0x80, CHR 0x80]]"

function lstrip :: "string \<Rightarrow> string" where
  "lstrip s =
     (case List.find (\<lambda>w. prefix w s) whitespace of
        None \<Rightarrow> s
      | Some w \<Rightarrow> lstrip (drop (length w) s))"
  by pat_completeness auto

function rstrip :: "string \<Rightarrow> string" where
  "rstrip s =
     (case List.find (\<lambda>w. suffix w s) whitespace of
        None \<Rightarrow> s
      | Some w \<Rightarrow> rstrip (take (length s - length w) s))"
  by pat_completeness auto

termination lstrip
proof (relation "measure length")
  fix s w
  assume "List.find (\<lambda>w. prefix w s) whitespace = Some w"
  then have "prefix w s" and "w \<in> set whitespace"
    by (auto simp: find_Some_iff)
  moreover from this have "w \<noteq> []"
    by (auto simp: whitespace_def)
  ultimately have "length (drop (length w) s) < length s"
    by (auto simp: prefix_def)
  then show "(drop (length w) s, s) \<in> measure length" by simp
qed simp

termination rstrip
proof (relation "measure length")
  fix s w
  assume "List.find (\<lambda>w. suffix w s) whitespace = Some w"
  then have "suffix w s" and "w \<in> set whitespace"
    by (auto simp: find_Some_iff)
  moreover from this have "w \<noteq> []"
    by (auto simp: whitespace_def)
  ultimately have "length (take (length s - length w) s) < length s"
    by (auto simp: suffix_def)
  then show "(take (length s - length w) s, s) \<in> measure length" by simp
qed simp

text \<open>\<open>s.strip()\<close>\<close>

definition strip :: "string \<Rightarrow> string" where
  "strip s = rstrip (lstrip s)"

text \<open>\<open>sep.join(xs)\<close>\<close>

fun join :: "string \<Rightarrow> string list \<Rightarrow> string" where
  "join sep [] = []"
| "join sep [x] = x"
| "join sep (x # y # ys) = x @ sep @ join sep (y # ys)"

section \<open>Errors\<close>

text \<open>
  The program has one exception class of its own, \<open>ReportError\<close>, raised with five different
  messages; \<^typ>\<open>string\<close> arguments are what the message interpolates (the path, the joined
  column names). The messages themselves are Russian text:
  \<^item> \<open>MissingHeader path\<close>: "file <path> has no headers";
  \<^item> \<open>MissingColumns path cols\<close>: "file <path> lacks the required columns: <cols>";
  \<^item> \<open>FileNotFound path\<close>: "file <path> not found";
  \<^item> \<open>EmptyDataset\<close>: "no data in any file (headers only)";
  \<^item> \<open>NoValidData\<close>: "could not compute performance: no valid data".
\<close>

datatype report_message =
    MissingHeader string
  | MissingColumns string string
  | FileNotFound string
  | EmptyDataset
  | NoValidData

text \<open>
  The other constructors are the interpreter's exceptions that the program does not catch:
  an \<open>OSError\<close> of \<open>open\<close> that is not a \<open>FileNotFoundError\<close>, and the ones the arithmetic
  and indexing of \<open>performance_report\<close> could raise.
\<close>

datatype error =
    ReportError report_message
  | OSError string
  | ZeroDivisionError
  | IndexError
  | TypeError

section \<open>Ingestion\<close>

text \<open>
  What \<open>open(path, newline="", encoding="utf-8")\<close> followed by \<open>csv.reader\<close> gives for a
  path: no such file (\<open>FileNotFoundError\<close>), a file that cannot be opened
  (\<open>PermissionError\<close>, \<open>IsADirectoryError\<close>: an \<open>OSError\<close> that is not a
  \<open>FileNotFoundError\<close>), or the list of rows \<open>csv.reader\<close> yields, each a list of cells, a
  blank line being the row \<open>[]\<close>. A file whose bytes are not UTF-8, or that \<open>csv.reader\<close>
  rejects, is not modelled.
\<close>

datatype file_state = Absent | Unreadable | Content "string list list"

type_synonym filesystem = "string \<Rightarrow> file_state"

text \<open>
  A row as \<open>csv.DictReader\<close> returns it: a \<open>dict\<close> in insertion order from the field names
  to a cell or \<open>None\<close>, and, for a row longer than the header, the surplus cells that
  \<open>DictReader\<close> stores under its \<open>restkey\<close> (the key \<open>None\<close>).
\<close>

record employee =
  items :: "(string \<times> string option) list"
  surplus :: "string list option"

text \<open>\<open>row.get(key)\<close>: \<open>None\<close> for a key that is absent, and for one that maps to \<open>None\<close>.\<close>

definition row_get :: "employee \<Rightarrow> string \<Rightarrow> string option" where
  "row_get row key = (case map_of (items row) key of None \<Rightarrow> None | Some v \<Rightarrow> v)"

text \<open>
  \<open>DictReader.__next__\<close> on a non-blank row:
  \<^verbatim>\<open>
  d = dict(zip(self.fieldnames, row))
  lf = len(self.fieldnames); lr = len(row)
  if lf < lr: d[self.restkey] = row[lf:]
  elif lf > lr:
      for key in self.fieldnames[lr:]: d[key] = self.restval
  \<close>
\<close>

definition dict_row :: "string list \<Rightarrow> string list \<Rightarrow> employee" where
  "dict_row fieldnames row =
     \<lparr>items =
        foldl (\<lambda>d (key, v). AList.update key v d) []
          (zip fieldnames (map Some row) @
           map (\<lambda>key. (key, None)) (drop (length row) fieldnames)),
      surplus =
        (if length fieldnames < length row then Some (drop (length fieldnames) row)
         else None)\<rparr>"

definition required_columns :: "string list" where
  "required_columns = [''position'', ''performance'']"

text \<open>
  The body of the loop of \<open>read_employees\<close> for one path: the rows of that file, or the
  exception raised. \<open>reader.fieldnames\<close> is the first row, \<open>None\<close> when there is none;
  iterating the reader skips the rows that are \<open>[]\<close>. \<open>sorted(missing)\<close> sorts a set,
  so its result does not depend on the order in which the set is listed.
\<close>

definition read_file :: "filesystem \<Rightarrow> string \<Rightarrow> error + employee list" where
  "read_file fs path =
     (case fs path of
        Absent \<Rightarrow> Inl (ReportError (FileNotFound path))
      | Unreadable \<Rightarrow> Inl (OSError path)
      | Content [] \<Rightarrow> Inl (ReportError (MissingHeader path))
      | Content (fieldnames # lines) \<Rightarrow>
          if fieldnames = [] then Inl (ReportError (MissingHeader path))
          else
            let missing = filter (\<lambda>c. c \<notin> set fieldnames) required_columns in
            if missing \<noteq> [] then
              Inl (ReportError (MissingColumns path (join '', '' (sort missing))))
            else Inr (map (dict_row fieldnames) (filter (\<lambda>row. row \<noteq> []) lines)))"

fun read_files :: "filesystem \<Rightarrow> string list \<Rightarrow> employee list \<Rightarrow> error + employee list" where
  "read_files fs [] employees = Inr employees"
| "read_files fs (path # files) employees =
     (case read_file fs path of
        Inl e \<Rightarrow> Inl e
      | Inr rows \<Rightarrow> read_files fs files (employees @ rows))"

definition read_employees :: "filesystem \<Rightarrow> string list \<Rightarrow> error + employee list" where
  "read_employees fs files =
     (case read_files fs files [] of
        Inl e \<Rightarrow> Inl e
      | Inr employees \<Rightarrow>
          if employees = [] then Inl (ReportError EmptyDataset) else Inr employees)"

section \<open>Floating-point numbers\<close>

text \<open>
  \<open>float\<close> and its operations belong to the interpreter, not to the program. The program is
  modelled over any type \<open>'f\<close> of floats, given with the operations the program applies:
  \<^item> \<open>parse_float s\<close>: \<open>float(s)\<close>, \<open>None\<close> where it raises \<open>ValueError\<close>;
  \<^item> \<open>fzero\<close>: the literal \<open>0.0\<close>;
  \<^item> \<open>fadd x y\<close>: \<open>x + y\<close>;
  \<^item> \<open>fdiv_count x n\<close>: \<open>x / n\<close> for an \<open>int\<close> \<open>n\<close> that is not zero;
  \<^item> \<open>fround2 x\<close>: \<open>round(x, 2)\<close>;
  \<^item> \<open>fneg x\<close>: \<open>-x\<close>;
  \<^item> \<open>flt x y\<close>: \<open>x < y\<close>, and \<open>feq x y\<close>: \<open>x == y\<close>.
\<close>

record 'f float_ops =
  parse_float :: "string \<Rightarrow> 'f option"
  fzero :: "'f"
  fadd :: "'f \<Rightarrow> 'f \<Rightarrow> 'f"
  fdiv_count :: "'f \<Rightarrow> nat \<Rightarrow> 'f"
  fround2 :: "'f \<Rightarrow> 'f"
  fneg :: "'f \<Rightarrow> 'f"
  flt :: "'f \<Rightarrow> 'f \<Rightarrow> bool"
  feq :: "'f \<Rightarrow> 'f \<Rightarrow> bool"

section \<open>Aggregation\<close>

text \<open>A row of the report is a list of two values of different types, a \<open>str\<close> and a \<open>float\<close>.\<close>

datatype 'f cell = Text string | Num 'f

record 'f report_result =
  headers :: "string list"
  rows :: "'f cell list list"

text \<open>
  The body of the first loop of \<open>performance_report\<close>: \<open>totals\<close> after one more record.
  \<open>totals\<close> is a \<open>dict\<close>, whose order of insertion the second loop follows: an association
  list that a new key extends at the end.
\<close>

definition accumulate ::
  "'f float_ops \<Rightarrow> (string \<times> 'f \<times> nat) list \<Rightarrow> employee \<Rightarrow> (string \<times> 'f \<times> nat) list" where
  "accumulate ops totals row =
     (case (row_get row ''position'', row_get row ''performance'') of
        (Some position_raw, Some performance_raw) \<Rightarrow>
          let position = strip position_raw in
          if position = [] then totals
          else
            (case parse_float ops performance_raw of
               None \<Rightarrow> totals
             | Some performance \<Rightarrow>
                 let (total, count) =
                   (case map_of totals position of None \<Rightarrow> (fzero ops, 0) | Some tc \<Rightarrow> tc)
                 in AList.update position (fadd ops total performance, count + 1) totals)
      | _ \<Rightarrow> totals)"

text \<open>A loop that appends \<open>f x\<close> for each \<open>x\<close>, left at the first exception.\<close>

fun collect :: "('a \<Rightarrow> error + 'b) \<Rightarrow> 'a list \<Rightarrow> error + 'b list" where
  "collect f [] = Inr []"
| "collect f (x # xs) =
     (case f x of
        Inl e \<Rightarrow> Inl e
      | Inr y \<Rightarrow> (case collect f xs of Inl e \<Rightarrow> Inl e | Inr ys \<Rightarrow> Inr (y # ys)))"

text \<open>The body of the second loop: the row of one position.\<close>

definition average_row :: "'f float_ops \<Rightarrow> string \<times> 'f \<times> nat \<Rightarrow> error + 'f cell list" where
  "average_row ops = (\<lambda>(position, total, count).
     if count = 0 then Inl ZeroDivisionError
     else Inr [Text position, Num (fround2 ops (fdiv_count ops total count))])"

text \<open>
  The key \<open>lambda row: (-row[1], row[0])\<close>. The rows it is applied to are the ones
  \<open>average_row\<close> builds. On a row of another shape, which the program never builds, the
  indexing raises \<open>IndexError\<close> or the negation \<open>TypeError\<close>; a row that starts with a
  number is given \<open>TypeError\<close> too, which Python raises when it compares that key with one
  that starts with a string.
\<close>

definition row_key :: "'f float_ops \<Rightarrow> 'f cell list \<Rightarrow> error + 'f \<times> string" where
  "row_key ops row =
     (case row of
        [] \<Rightarrow> Inl IndexError
      | [c] \<Rightarrow> Inl IndexError
      | Text position # Num avg # cs \<Rightarrow> Inr (fneg ops avg, position)
      | c # d # cs \<Rightarrow> Inl TypeError)"

text \<open>
  \<open><\<close> on two such keys, as Python compares tuples: the first components that are not
  \<open>==\<close> decide by \<open><\<close>.
\<close>

definition key_lt :: "'f float_ops \<Rightarrow> 'f \<times> string \<Rightarrow> 'f \<times> string \<Rightarrow> bool" where
  "key_lt ops = (\<lambda>(a1, n1) (a2, n2). if feq ops a1 a2 then n1 < n2 else flt ops a1 a2)"

text \<open>
  \<open>list.sort(key=...)\<close> computes the key of every element once, then sorts stably, comparing
  keys by \<open><\<close> only. It is modelled by insertion sort, from the right. Where \<open><\<close> orders
  the keys totally every stable sort returns the same list; where it does not (a key is
  NaN) the list is the interpreter's on at most two elements, and can be another
  permutation of the same elements on more.
\<close>

fun insort_lt :: "('k \<Rightarrow> 'k \<Rightarrow> bool) \<Rightarrow> 'k \<times> 'a \<Rightarrow> ('k \<times> 'a) list \<Rightarrow> ('k \<times> 'a) list" where
  "insort_lt lt x [] = [x]"
| "insort_lt lt x (y # ys) =
     (if lt (fst y) (fst x) then y # insort_lt lt x ys else x # y # ys)"

definition list_sort ::
  "('k \<Rightarrow> 'k \<Rightarrow> bool) \<Rightarrow> ('a \<Rightarrow> error + 'k) \<Rightarrow> 'a list \<Rightarrow> error + 'a list" where
  "list_sort lt key xs =
     (case collect key xs of
        Inl e \<Rightarrow> Inl e
      | Inr keys \<Rightarrow> Inr (map snd (foldr (insort_lt lt) (zip keys xs) [])))"

definition performance_report ::
  "'f float_ops \<Rightarrow> employee list \<Rightarrow> error + 'f report_result" where
  "performance_report ops employees =
     (let totals = foldl (accumulate ops) [] employees in
      if totals = [] then Inl (ReportError NoValidData)
      else
        (case collect (average_row ops) totals of
           Inl e \<Rightarrow> Inl e
         | Inr rs \<Rightarrow>
             (case list_sort (key_lt ops) (row_key ops) rs of
                Inl e \<Rightarrow> Inl e
              | Inr sorted_rows \<Rightarrow>
                  Inr \<lparr>headers = [''position'', ''performance''], rows = sorted_rows\<rparr>)))"

section \<open>An instance of the floats\<close>

text \<open>
  The floats with which the general theorems are applied to concrete records: the two
  infinities, NaN, and finite values that are exact rationals. Comparison, negation and the
  arithmetic of infinities and NaN are those of IEEE 754 doubles. The arithmetic of finite
  values is exact where a double is rounded to 53 bits and overflows to an infinity, and
  there is one zero: \<open>0.0\<close> and \<open>-0.0\<close> are \<open>==\<close> in Python.
\<close>

datatype xfloat = Finite rat | PosInf | NegInf | NaN

fun xadd :: "xfloat \<Rightarrow> xfloat \<Rightarrow> xfloat" where
  "xadd (Finite a) (Finite b) = Finite (a + b)"
| "xadd (Finite a) y = y"
| "xadd x (Finite b) = x"
| "xadd PosInf PosInf = PosInf"
| "xadd NegInf NegInf = NegInf"
| "xadd x y = NaN"

fun xdiv_count :: "xfloat \<Rightarrow> nat \<Rightarrow> xfloat" where
  "xdiv_count (Finite a) n = Finite (a / of_nat n)"
| "xdiv_count x n = x"

text \<open>Rounding to the nearest integer, a tie to the even one, as \<open>round\<close> does.\<close>

definition round_half_even :: "rat \<Rightarrow> int" where
  "round_half_even x =
     (let f = \<lfloor>x\<rfloor>; d = x - of_int f in
      if d < 1 / 2 then f
      else if 1 / 2 < d then f + 1
      else if even f then f else f + 1)"

fun xround2 :: "xfloat \<Rightarrow> xfloat" where
  "xround2 (Finite a) = Finite (of_int (round_half_even (a * 100)) / 100)"
| "xround2 x = x"

fun xneg :: "xfloat \<Rightarrow> xfloat" where
  "xneg (Finite a) = Finite (- a)"
| "xneg PosInf = NegInf"
| "xneg NegInf = PosInf"
| "xneg NaN = NaN"

fun xlt :: "xfloat \<Rightarrow> xfloat \<Rightarrow> bool" where
  "xlt (Finite a) (Finite b) = (a < b)"
| "xlt NegInf (Finite b) = True"
| "xlt NegInf PosInf = True"
| "xlt (Finite a) PosInf = True"
| "xlt x y = False"

definition xeq :: "xfloat \<Rightarrow> xfloat \<Rightarrow> bool" where
  "xeq x y = (x = y \<and> x \<noteq> NaN)"

text \<open>
  \<open>float(s)\<close> on a string of ASCII characters, after the grammar of the language reference:
  \<^verbatim>\<open>
  digitpart   ::= digit (["_"] digit)*
  number      ::= [digitpart] "." digitpart | digitpart ["."]
  exponent    ::= ("e" | "E") [sign] digitpart
  floatnumber ::= number [exponent]
  floatvalue  ::= [sign] (floatnumber | "inf" | "infinity" | "nan")
  \<close>
  with \<open>inf\<close>, \<open>infinity\<close> and \<open>nan\<close> in any case, and whitespace around the value removed.
  The whitespace \<open>float\<close> removes is the one of \<open>str.strip()\<close> without U+001C..U+001F: with
  one of these four before or after the value \<open>float\<close> raises \<open>ValueError\<close>.
  (Python also reads the decimal digits of other scripts, which this parser rejects.)
\<close>

definition is_digit :: "char \<Rightarrow> bool" where
  "is_digit c = (CHR ''0'' \<le> c \<and> c \<le> CHR ''9'')"

definition nat_of_digits :: "string \<Rightarrow> nat" where
  "nat_of_digits s = foldl (\<lambda>n c. 10 * n + (of_char c - 48)) 0 s"

definition digitpart :: "string \<Rightarrow> nat option" where
  "digitpart s =
     (if s \<noteq> [] \<and> list_all (\<lambda>c. is_digit c \<or> c = CHR ''_'') s
         \<and> is_digit (hd s) \<and> is_digit (last s)
         \<and> \<not> list_ex (\<lambda>(c, d). c = CHR ''_'' \<and> d = CHR ''_'') (zip s (tl s))
      then Some (nat_of_digits (filter is_digit s)) else None)"

definition parse_number :: "string \<Rightarrow> rat option" where
  "parse_number s =
     (let ip = takeWhile (\<lambda>c. c \<noteq> CHR ''.'') s;
          r = dropWhile (\<lambda>c. c \<noteq> CHR ''.'') s
      in if r = [] \<or> tl r = [] then map_option of_nat (digitpart ip)
         else
           (case digitpart (tl r) of
              None \<Rightarrow> None
            | Some f \<Rightarrow>
                let frac = of_nat f / 10 ^ length (filter is_digit (tl r)) in
                if ip = [] then Some frac
                else map_option (\<lambda>i. of_nat i + frac) (digitpart ip)))"

definition parse_exponent :: "string \<Rightarrow> int option" where
  "parse_exponent s =
     (case s of
        [] \<Rightarrow> None
      | c # cs \<Rightarrow>
          if c = CHR ''-'' then map_option (\<lambda>n. - int n) (digitpart cs)
          else if c = CHR ''+'' then map_option int (digitpart cs)
          else map_option int (digitpart s))"

definition parse_floatnumber :: "string \<Rightarrow> rat option" where
  "parse_floatnumber s =
     (let m = takeWhile (\<lambda>c. c \<noteq> CHR ''e'' \<and> c \<noteq> CHR ''E'') s;
          r = dropWhile (\<lambda>c. c \<noteq> CHR ''e'' \<and> c \<noteq> CHR ''E'') s
      in if r = [] then parse_number m
         else
           (case (parse_number m, parse_exponent (tl r)) of
              (Some q, Some e) \<Rightarrow>
                Some (if 0 \<le> e then q * 10 ^ nat e else q / 10 ^ nat (- e))
            | _ \<Rightarrow> None))"

definition to_lower :: "char \<Rightarrow> char" where
  "to_lower c =
     (if CHR ''A'' \<le> c \<and> c \<le> CHR ''Z'' then char_of (of_char c + (32 :: nat)) else c)"

definition xparse :: "string \<Rightarrow> xfloat option" where
  "xparse s =
     (let t = strip s;
          around = take (length s - length (lstrip s)) s @ drop (length (rstrip s)) s;
          negative = (t \<noteq> [] \<and> hd t = CHR ''-'');
          body = (if t \<noteq> [] \<and> (hd t = CHR ''-'' \<or> hd t = CHR ''+'') then tl t else t);
          word = map to_lower body
      in if list_ex (\<lambda>c. CHR 0x1C \<le> c \<and> c \<le> CHR 0x1F) around then None
         else if word = ''nan'' then Some NaN
         else if word = ''inf'' \<or> word = ''infinity'' then
           Some (if negative then NegInf else PosInf)
         else
           map_option (\<lambda>q. Finite (if negative then - q else q)) (parse_floatnumber body))"

definition xfloat_ops :: "xfloat float_ops" where
  "xfloat_ops =
     \<lparr>parse_float = xparse, fzero = Finite 0, fadd = xadd, fdiv_count = xdiv_count,
      fround2 = xround2, fneg = xneg, flt = xlt, feq = xeq\<rparr>"

section \<open>Notions of the specification: ingestion\<close>

text \<open>The header of a file (its first row) and its data rows: the later rows that are not blank.\<close>

definition header :: "filesystem \<Rightarrow> string \<Rightarrow> string list" where
  "header fs path = (case fs path of Content (h # ls) \<Rightarrow> h | _ \<Rightarrow> [])"

definition data_rows :: "filesystem \<Rightarrow> string \<Rightarrow> string list list" where
  "data_rows fs path =
     (case fs path of Content (h # ls) \<Rightarrow> filter (\<lambda>row. row \<noteq> []) ls | _ \<Rightarrow> [])"

text \<open>A well-formed file: it can be read and its header has both required columns.\<close>

definition valid_file :: "filesystem \<Rightarrow> string \<Rightarrow> bool" where
  "valid_file fs path =
     (''position'' \<in> set (header fs path) \<and> ''performance'' \<in> set (header fs path))"

text \<open>The records of a file: one per data row, in the order of the file.\<close>

definition file_records :: "filesystem \<Rightarrow> string \<Rightarrow> employee list" where
  "file_records fs path = map (dict_row (header fs path)) (data_rows fs path)"

text \<open>
  A file system to apply the theorems to: the two files of the repository's test of the
  report, the file of its test of a missing column, a file with a header only, an empty
  file, and a file that exists and cannot be opened. No other path exists.
\<close>

definition example_header :: "string list" where
  "example_header =
     [''name'', ''position'', ''completed_tasks'', ''performance'', ''skills'', ''team'',
      ''experience_years'']"

definition example_fs :: filesystem where
  "example_fs path =
     (if path = ''employees1.csv'' then
        Content
          [example_header,
           [''A'', ''Backend Developer'', ''10'', ''4.8'', [], ''Team'', ''3''],
           [''B'', ''Backend Developer'', ''20'', ''5.0'', [], ''Team'', ''4''],
           [''C'', ''QA Engineer'', ''5'', ''4.5'', [], ''Team'', ''1'']]
      else if path = ''employees2.csv'' then
        Content
          [example_header,
           [''D'', ''Backend Developer'', ''15'', ''4.7'', [], ''Team'', ''2''],
           [''E'', ''QA Engineer'', ''12'', ''4.3'', [], ''Team'', ''3'']]
      else if path = ''bad.csv'' then
        Content [[''name'', ''position'', ''completed_tasks''], [''A'', ''Backend Developer'', ''10'']]
      else if path = ''header.csv'' then Content [[''position'', ''performance'']]
      else if path = ''empty.csv'' then Content []
      else if path = ''locked.csv'' then Unreadable
      else Absent)"

section \<open>Notions of the specification: aggregation\<close>

text \<open>
  The position key and the performance value a record contributes; \<open>None\<close> for a record
  that is skipped.
\<close>

definition entry :: "'f float_ops \<Rightarrow> employee \<Rightarrow> (string \<times> 'f) option" where
  "entry ops row =
     (case row_get row ''position'' of
        None \<Rightarrow> None
      | Some position_raw \<Rightarrow>
          (case row_get row ''performance'' of
             None \<Rightarrow> None
           | Some performance_raw \<Rightarrow>
               if strip position_raw = [] then None
               else map_option (Pair (strip position_raw)) (parse_float ops performance_raw)))"

text \<open>
  A skipped record: a field is absent, the trimmed position is blank, or the performance
  does not parse as a number.
\<close>

definition skipped :: "'f float_ops \<Rightarrow> employee \<Rightarrow> bool" where
  "skipped ops row =
     (row_get row ''position'' = None \<or> row_get row ''performance'' = None
      \<or> map_option strip (row_get row ''position'') = Some []
      \<or> Option.bind (row_get row ''performance'') (parse_float ops) = None)"

text \<open>The distinct position keys of the records that are not skipped.\<close>

definition position_keys :: "'f float_ops \<Rightarrow> employee list \<Rightarrow> string list" where
  "position_keys ops es = remdups (map fst (List.map_filter (entry ops) es))"

text \<open>The performance values of one position, in the order of the records.\<close>

definition position_values :: "'f float_ops \<Rightarrow> employee list \<Rightarrow> string \<Rightarrow> 'f list" where
  "position_values ops es p =
     map snd (filter (\<lambda>e. fst e = p) (List.map_filter (entry ops) es))"

text \<open>
  The sum of values divided by their count, rounded to 2 decimal places. The sum is the one
  of floats, from \<open>0.0\<close> and from the left.
\<close>

definition average :: "'f float_ops \<Rightarrow> 'f list \<Rightarrow> 'f" where
  "average ops vs =
     fround2 ops (fdiv_count ops (foldl (fadd ops) (fzero ops) vs) (length vs))"

text \<open>
  The comparison of two rows that the specification states: the greater average first, and
  of two averages that are equal the smaller name first.
\<close>

definition row_le :: "'f float_ops \<Rightarrow> 'f cell list \<Rightarrow> 'f cell list \<Rightarrow> bool" where
  "row_le ops r1 r2 =
     (case (r1, r2) of
        ([Text p1, Num a1], [Text p2, Num a2]) \<Rightarrow>
          flt ops a2 a1 \<or> (feq ops a1 a2 \<and> p1 \<le> p2)
      | _ \<Rightarrow> False)"

text \<open>The averages of a list of rows.\<close>

definition row_average :: "'f cell list \<Rightarrow> 'f option" where
  "row_average row = (case row of [Text p, Num a] \<Rightarrow> Some a | _ \<Rightarrow> None)"

definition averages :: "'f cell list list \<Rightarrow> 'f list" where
  "averages rs = List.map_filter row_average rs"

text \<open>
  \<open>==\<close> and \<open><\<close> order the floats of \<open>A\<close> totally and negation reverses that order: what
  IEEE 754 gives on a set of floats none of which is NaN.
\<close>

definition ordered_floats :: "'f float_ops \<Rightarrow> 'f set \<Rightarrow> bool" where
  "ordered_floats ops A =
     (\<forall>a\<in>A. \<forall>b\<in>A.
        (feq ops a b \<or> flt ops a b \<or> flt ops b a)
        \<and> \<not> (flt ops a b \<and> flt ops b a)
        \<and> \<not> (feq ops a b \<and> flt ops a b)
        \<and> (feq ops a b \<longrightarrow> feq ops b a)
        \<and> flt ops (fneg ops a) (fneg ops b) = flt ops b a
        \<and> feq ops (fneg ops a) (fneg ops b) = feq ops a b
        \<and> (\<forall>c\<in>A.
              (flt ops a b \<and> flt ops b c \<longrightarrow> flt ops a c)
              \<and> (feq ops a b \<and> feq ops b c \<longrightarrow> feq ops a c)
              \<and> (feq ops a b \<and> flt ops b c \<longrightarrow> flt ops a c)
              \<and> (flt ops a b \<and> feq ops b c \<longrightarrow> flt ops a c)))"

text \<open>A record with the two fields the report reads, to apply the theorems to.\<close>

definition employee_of :: "string \<Rightarrow> string \<Rightarrow> employee" where
  "employee_of position performance =
     dict_row [''position'', ''performance''] [position, performance]"

text \<open>The row and the sort key the specification gives to position \<open>p\<close>.\<close>

definition expected_row :: "'f float_ops \<Rightarrow> employee list \<Rightarrow> string \<Rightarrow> 'f cell list" where
  "expected_row ops es p = [Text p, Num (average ops (position_values ops es p))]"

definition expected_key :: "'f float_ops \<Rightarrow> employee list \<Rightarrow> string \<Rightarrow> 'f \<times> string" where
  "expected_key ops es p = (fneg ops (average ops (position_values ops es p)), p)"

text \<open>The records of the repository's test of the report, reduced to the two fields.\<close>

definition example_employees :: "employee list" where
  "example_employees =
     [employee_of ''Backend Developer'' ''4.8'',
      employee_of ''Backend Developer'' ''5.0'',
      employee_of ''QA Engineer'' ''4.5'',
      employee_of ''Backend Developer'' ''4.7'',
      employee_of ''QA Engineer'' ''4.3'']"

section \<open>Properties of ingestion\<close>

lemma read_file_valid:
  "valid_file fs path \<Longrightarrow> read_file fs path = Inr (file_records fs path)"
  by (auto simp: valid_file_def header_def data_rows_def read_file_def file_records_def
      required_columns_def split: file_state.splits list.splits)

lemma read_file_Inr:
  "read_file fs path = Inr rs \<Longrightarrow> valid_file fs path"
  by (auto simp: valid_file_def header_def read_file_def required_columns_def Let_def
      split: file_state.splits list.splits if_splits)

lemma read_files_valid:
  "\<forall>p\<in>set files. valid_file fs p \<Longrightarrow>
   read_files fs files acc = Inr (acc @ concat (map (file_records fs) files))"
  by (induction files arbitrary: acc) (simp_all add: read_file_valid)

lemma read_files_first_failure:
  "\<forall>q\<in>set pre. valid_file fs q \<Longrightarrow> read_file fs p = Inl e \<Longrightarrow>
   read_files fs (pre @ p # post) acc = Inl e"
  by (induction pre arbitrary: acc) (simp_all add: read_file_valid)

lemma read_files_Inr:
  "read_files fs files acc = Inr es \<Longrightarrow> \<forall>p\<in>set files. valid_file fs p"
  by (induction files arbitrary: acc) (auto split: sum.splits dest: read_file_Inr)

lemma read_employees_first_failure:
  "\<forall>q\<in>set pre. valid_file fs q \<Longrightarrow> read_file fs p = Inl e \<Longrightarrow>
   read_employees fs (pre @ p # post) = Inl e"
  by (simp add: read_employees_def read_files_first_failure)

lemma read_employees_valid:
  "\<forall>p\<in>set files. valid_file fs p \<Longrightarrow>
   read_employees fs files =
     (if concat (map (file_records fs) files) = [] then Inl (ReportError EmptyDataset)
      else Inr (concat (map (file_records fs) files)))"
  by (simp add: read_employees_def read_files_valid)

lemma map_of_foldl_update:
  "map_of (foldl (\<lambda>d (key, v). AList.update key v d) d l) = map_of (rev l @ d)"
  by (induction l arbitrary: d)
    (auto simp: update_conv' map_add_def fun_eq_iff split: option.splits)

lemma map_of_rev_distinct: "distinct (map fst l) \<Longrightarrow> map_of (rev l) = map_of l"
  by (rule map_of_inject_set [THEN iffD2]) (simp_all add: rev_map [symmetric])

lemma dict_row_keys:
  "map fst (zip hdr (map Some row) @ map (\<lambda>key. (key, None)) (drop (length row) hdr)) = hdr"
proof (induction hdr arbitrary: row)
  case Nil
  then show ?case by simp
next
  case (Cons h hs)
  then show ?case by (cases row) (simp_all add: comp_def)
qed

lemma dict_row_lookup:
  "distinct hdr \<Longrightarrow> i < length hdr \<Longrightarrow>
   map_of (zip hdr (map Some row) @ map (\<lambda>key. (key, None)) (drop (length row) hdr)) (hdr ! i)
     = Some (if i < length row then Some (row ! i) else None)"
proof (induction hdr arbitrary: row i)
  case Nil
  then show ?case by simp
next
  case (Cons h hs)
  show ?case
  proof (cases i)
    case 0
    then show ?thesis by (cases row) simp_all
  next
    case (Suc j)
    with Cons.prems have j: "j < length hs" "hs ! j \<noteq> h" "distinct hs"
      by auto
    show ?thesis
    proof (cases row)
      case Nil
      with Cons.IH [of j "[]"] j Suc show ?thesis by simp
    next
      case (Cons r rs)
      with Cons.IH [of j rs] j Suc show ?thesis by simp
    qed
  qed
qed

lemma dict_row_cell:
  assumes "distinct hdr" "i < length hdr"
  shows "row_get (dict_row hdr row) (hdr ! i) = (if i < length row then Some (row ! i) else None)"
proof -
  let ?l = "zip hdr (map Some row) @ map (\<lambda>key. (key, None)) (drop (length row) hdr)"
  have "distinct (map fst ?l)"
    using assms(1) by (simp only: dict_row_keys)
  then have "map_of (rev ?l) = map_of ?l"
    by (rule map_of_rev_distinct)
  then have "map_of (items (dict_row hdr row)) = map_of ?l"
    by (simp add: dict_row_def map_of_foldl_update)
  with dict_row_lookup [OF assms, of row] show ?thesis
    by (simp add: row_get_def)
qed

text \<open>
  C3: for a list of well-formed files with at least one data row in all, \<open>read_employees\<close>
  returns the records of the files' data rows, file after file in the order of the paths
  and row after row in the order of each file; their number is the sum of the numbers of
  data rows; each record maps a field name of the header (the names being distinct) to the
  cell of the row in that column, as the string it is, and to \<open>None\<close> where the row is too
  short. Blank lines are not data rows.
\<close>

theorem read_employees_concatenates:
  assumes "\<forall>p\<in>set files. valid_file fs p" and "\<exists>p\<in>set files. data_rows fs p \<noteq> []"
  shows "read_employees fs files
           = Inr (concat (map (\<lambda>p. map (dict_row (header fs p)) (data_rows fs p)) files))
       \<and> (\<forall>es. read_employees fs files = Inr es \<longrightarrow>
            length es = sum_list (map (\<lambda>p. length (data_rows fs p)) files))
       \<and> (\<forall>p\<in>set files. \<forall>row\<in>set (data_rows fs p). \<forall>i<length (header fs p).
            distinct (header fs p) \<longrightarrow>
            row_get (dict_row (header fs p) row) (header fs p ! i)
              = (if i < length row then Some (row ! i) else None))"
proof -
  let ?all = "concat (map (file_records fs) files)"
  from assms(2) have "?all \<noteq> []"
    by (auto simp: file_records_def)
  with assms(1) have r: "read_employees fs files = Inr ?all"
    by (simp add: read_employees_valid)
  have "length ?all = sum_list (map (\<lambda>p. length (data_rows fs p)) files)"
    by (simp add: length_concat comp_def file_records_def)
  moreover have "?all = concat (map (\<lambda>p. map (dict_row (header fs p)) (data_rows fs p)) files)"
    by (simp add: file_records_def [abs_def])
  ultimately show ?thesis
    using r by (auto simp: dict_row_cell)
qed

theorem read_employees_concatenates_witness:
  "read_employees example_fs [''employees1.csv'', ''employees2.csv'']
     = Inr (map (dict_row example_header)
         [[''A'', ''Backend Developer'', ''10'', ''4.8'', [], ''Team'', ''3''],
          [''B'', ''Backend Developer'', ''20'', ''5.0'', [], ''Team'', ''4''],
          [''C'', ''QA Engineer'', ''5'', ''4.5'', [], ''Team'', ''1''],
          [''D'', ''Backend Developer'', ''15'', ''4.7'', [], ''Team'', ''2''],
          [''E'', ''QA Engineer'', ''12'', ''4.3'', [], ''Team'', ''3'']])
   \<and> row_get (dict_row example_header
         [''E'', ''QA Engineer'', ''12'', ''4.3'', [], ''Team'', ''3'']) ''performance''
       = Some ''4.3''"
proof -
  let ?files = "[''employees1.csv'', ''employees2.csv'']"
  let ?row = "[''E'', ''QA Engineer'', ''12'', ''4.3'', [], ''Team'', ''3'']"
  have v: "\<forall>p\<in>set ?files. valid_file example_fs p"
    by (simp add: valid_file_def header_def example_fs_def example_header_def)
  have d: "\<exists>p\<in>set ?files. data_rows example_fs p \<noteq> []"
    by (simp add: data_rows_def example_fs_def)
  note t = read_employees_concatenates [OF v d]
  have h: "header example_fs ''employees2.csv'' = example_header"
    by (simp add: header_def example_fs_def)
  have r: "?row \<in> set (data_rows example_fs ''employees2.csv'')"
    by (simp add: data_rows_def example_fs_def)
  have "row_get (dict_row (header example_fs ''employees2.csv'') ?row)
          (header example_fs ''employees2.csv'' ! 3) = Some ''4.3''"
    using t [THEN conjunct2, THEN conjunct2, rule_format, of "''employees2.csv''" ?row 3] r
    by (simp add: h) (simp add: example_header_def)
  then have "row_get (dict_row example_header ?row) ''performance'' = Some ''4.3''"
    by (simp add: h) (simp add: example_header_def)
  moreover have "read_employees example_fs ?files
     = Inr (map (dict_row example_header)
         [[''A'', ''Backend Developer'', ''10'', ''4.8'', [], ''Team'', ''3''],
          [''B'', ''Backend Developer'', ''20'', ''5.0'', [], ''Team'', ''4''],
          [''C'', ''QA Engineer'', ''5'', ''4.5'', [], ''Team'', ''1''],
          [''D'', ''Backend Developer'', ''15'', ''4.7'', [], ''Team'', ''2''],
          [''E'', ''QA Engineer'', ''12'', ''4.3'', [], ''Team'', ''3'']])"
    using t [THEN conjunct1] by (simp add: data_rows_def header_def example_fs_def)
  ultimately show ?thesis by simp
qed

text \<open>
  C4, as stated, fails: of two offending files the first in the list decides the error.
  Here a path that does not exist comes before the file that lacks a column, and the error
  is the one of the path.
\<close>

theorem missing_columns_counterexample:
  "''bad.csv'' \<in> set [''nope.csv'', ''bad.csv'']
   \<and> example_fs ''bad.csv''
       = Content [[''name'', ''position'', ''completed_tasks''], [''A'', ''Backend Developer'', ''10'']]
   \<and> read_employees example_fs [''nope.csv'', ''bad.csv'']
       = Inl (ReportError (FileNotFound ''nope.csv''))"
  by (simp add: read_employees_def read_file_def example_fs_def)

text \<open>
  C4, amended: a list with a file that is not well-formed always fails, no file is dropped;
  and where the file whose header lacks a required column is the first of the list that
  fails a check, the error is \<open>MissingColumns\<close> with the path of that file and the missing
  names in alphabetical order, joined by a comma and a space.
\<close>

theorem missing_columns_first_failure:
  "(p \<in> set files \<and> \<not> valid_file fs p \<longrightarrow> (\<exists>e. read_employees fs files = Inl e))
   \<and> ((\<forall>q\<in>set pre. valid_file fs q) \<and> fs p = Content (h # ls) \<and> h \<noteq> []
        \<and> \<not> (''position'' \<in> set h \<and> ''performance'' \<in> set h) \<longrightarrow>
      read_employees fs (pre @ p # post)
        = Inl (ReportError (MissingColumns p
            (if ''position'' \<notin> set h \<and> ''performance'' \<notin> set h then ''performance, position''
             else if ''position'' \<notin> set h then ''position''
             else ''performance''))))"
proof (intro conjI impI)
  assume "p \<in> set files \<and> \<not> valid_file fs p"
  then have "\<not> (\<exists>es. read_files fs files [] = Inr es)"
    using read_files_Inr by blast
  then obtain e where "read_files fs files [] = Inl e"
    by (cases "read_files fs files []") auto
  then show "\<exists>e. read_employees fs files = Inl e"
    by (simp add: read_employees_def)
next
  assume a: "(\<forall>q\<in>set pre. valid_file fs q) \<and> fs p = Content (h # ls) \<and> h \<noteq> []
        \<and> \<not> (''position'' \<in> set h \<and> ''performance'' \<in> set h)"
  then have "read_file fs p
        = Inl (ReportError (MissingColumns p
            (if ''position'' \<notin> set h \<and> ''performance'' \<notin> set h then ''performance, position''
             else if ''position'' \<notin> set h then ''position''
             else ''performance'')))"
    by (auto simp: read_file_def required_columns_def)
  with a show "read_employees fs (pre @ p # post)
        = Inl (ReportError (MissingColumns p
            (if ''position'' \<notin> set h \<and> ''performance'' \<notin> set h then ''performance, position''
             else if ''position'' \<notin> set h then ''position''
             else ''performance'')))"
    by (simp add: read_employees_first_failure)
qed

theorem missing_columns_first_failure_witness:
  "read_employees example_fs ([''employees1.csv''] @ ''bad.csv'' # [''nope.csv''])
     = Inl (ReportError (MissingColumns ''bad.csv'' ''performance''))
   \<and> (\<exists>e. read_employees example_fs [''bad.csv'', ''employees1.csv''] = Inl e)"
proof -
  have "\<not> valid_file example_fs ''bad.csv''"
    by (simp add: valid_file_def header_def example_fs_def)
  then have 1: "\<exists>e. read_employees example_fs [''bad.csv'', ''employees1.csv''] = Inl e"
    using missing_columns_first_failure
      [THEN conjunct1, of "''bad.csv''" "[''bad.csv'', ''employees1.csv'']" example_fs]
    by simp
  have "valid_file example_fs ''employees1.csv''"
    by (simp add: valid_file_def header_def example_fs_def example_header_def)
  moreover have "example_fs ''bad.csv''
      = Content ([''name'', ''position'', ''completed_tasks''] # [[''A'', ''Backend Developer'', ''10'']])"
    by (simp add: example_fs_def)
  ultimately have "read_employees example_fs ([''employees1.csv''] @ ''bad.csv'' # [''nope.csv''])
     = Inl (ReportError (MissingColumns ''bad.csv'' ''performance''))"
    using missing_columns_first_failure
      [THEN conjunct2, of "[''employees1.csv'']" example_fs "''bad.csv''"
        "[''name'', ''position'', ''completed_tasks'']" "[[''A'', ''Backend Developer'', ''10'']]"
        "[''nope.csv'']"]
    by simp
  with 1 show ?thesis by simp
qed

text \<open>
  C5, as stated, fails: a file that exists and cannot be opened is not an existing readable
  file, and \<open>open\<close> raises for it an \<open>OSError\<close> that is not a \<open>FileNotFoundError\<close>, which
  \<open>read_employees\<close> does not catch.
\<close>

theorem file_not_found_counterexample:
  "example_fs ''locked.csv'' = Unreadable
   \<and> read_employees example_fs [''locked.csv''] = Inl (OSError ''locked.csv'')
   \<and> read_employees example_fs [''locked.csv'']
       \<noteq> Inl (ReportError (FileNotFound ''locked.csv''))"
  by (simp add: read_employees_def read_file_def example_fs_def)

text \<open>
  C5, amended: for a path at which no file exists, the paths before it being well-formed
  files and the ones after it any paths at all, \<open>read_employees\<close> fails with the
  \<open>ReportError\<close> \<open>FileNotFound\<close> of that path.
\<close>

theorem file_not_found_first_failure:
  assumes "\<forall>q\<in>set pre. valid_file fs q" and "fs p = Absent"
  shows "read_employees fs (pre @ p # post) = Inl (ReportError (FileNotFound p))"
  using assms by (simp add: read_employees_first_failure read_file_def)

theorem file_not_found_first_failure_witness:
  "read_employees example_fs ([''employees1.csv''] @ ''nope.csv'' # [''employees2.csv''])
     = Inl (ReportError (FileNotFound ''nope.csv''))"
proof -
  have "\<forall>q\<in>set [''employees1.csv'']. valid_file example_fs q"
    by (simp add: valid_file_def header_def example_fs_def example_header_def)
  moreover have "example_fs ''nope.csv'' = Absent"
    by (simp add: example_fs_def)
  ultimately show ?thesis
    by (rule file_not_found_first_failure)
qed

text \<open>
  C6: \<open>read_employees\<close> fails with \<open>EmptyDataset\<close> exactly when every file of the list is
  well-formed and has no data row, so only after the loop has gone through all the files;
  and it never returns the empty list.
\<close>

theorem read_employees_empty_dataset:
  "(read_employees fs files = Inl (ReportError EmptyDataset))
     = (\<forall>p\<in>set files. valid_file fs p \<and> data_rows fs p = [])
   \<and> read_employees fs files \<noteq> Inr []"
proof -
  have 1: "read_file fs p \<noteq> Inl (ReportError EmptyDataset)" for p
    by (auto simp: read_file_def Let_def split: file_state.splits list.splits)
  have 2: "read_files fs fl acc \<noteq> Inl (ReportError EmptyDataset)" for fl acc
    by (induction fl arbitrary: acc) (auto simp: 1 split: sum.splits)
  have 3: "(file_records fs p = []) = (data_rows fs p = [])" for p
    by (simp add: file_records_def)
  show ?thesis
  proof (cases "\<forall>p\<in>set files. valid_file fs p")
    case True
    then show ?thesis by (simp add: read_employees_valid 3)
  next
    case False
    then have "\<not> (\<exists>es. read_files fs files [] = Inr es)"
      using read_files_Inr by blast
    then obtain e where "read_files fs files [] = Inl e"
      by (cases "read_files fs files []") auto
    with False 2 [of files "[]"] show ?thesis
      by (auto simp: read_employees_def)
  qed
qed

theorem read_employees_empty_dataset_witness:
  "read_employees example_fs [''header.csv'', ''header.csv''] = Inl (ReportError EmptyDataset)"
  using read_employees_empty_dataset [of example_fs "[''header.csv'', ''header.csv'']"]
  by (simp add: valid_file_def header_def data_rows_def example_fs_def)

text \<open>
  C8, as stated, fails: of two offending files the first in the list decides the error.
  Here a path that does not exist comes before the empty file.
\<close>

theorem missing_header_counterexample:
  "example_fs ''empty.csv'' = Content []
   \<and> read_employees example_fs [''nope.csv'', ''empty.csv'']
       = Inl (ReportError (FileNotFound ''nope.csv''))
   \<and> read_employees example_fs [''nope.csv'', ''empty.csv'']
       \<noteq> Inl (ReportError (MissingHeader ''empty.csv''))"
  by (simp add: read_employees_def read_file_def example_fs_def)

text \<open>
  C8, amended: where a file with no header (no line at all, or a blank first line) is the
  first of the list that fails a check, \<open>read_employees\<close> fails with the \<open>MissingHeader\<close>
  error of that file.
\<close>

theorem missing_header_first_failure:
  assumes "\<forall>q\<in>set pre. valid_file fs q"
    and "fs p = Content [] \<or> (\<exists>ls. fs p = Content ([] # ls))"
  shows "read_employees fs (pre @ p # post) = Inl (ReportError (MissingHeader p))"
proof -
  from assms(2) have "read_file fs p = Inl (ReportError (MissingHeader p))"
    by (auto simp: read_file_def)
  with assms(1) show ?thesis
    by (simp add: read_employees_first_failure)
qed

theorem missing_header_first_failure_witness:
  "read_employees example_fs ([''employees1.csv''] @ ''empty.csv'' # [''nope.csv''])
     = Inl (ReportError (MissingHeader ''empty.csv''))"
proof -
  have "\<forall>q\<in>set [''employees1.csv'']. valid_file example_fs q"
    by (simp add: valid_file_def header_def example_fs_def example_header_def)
  moreover have "example_fs ''empty.csv'' = Content []
      \<or> (\<exists>ls. example_fs ''empty.csv'' = Content ([] # ls))"
    by (simp add: example_fs_def)
  ultimately show ?thesis
    by (rule missing_header_first_failure)
qed

section \<open>Properties of aggregation\<close>

lemma skipped_entry: "skipped ops row = (entry ops row = None)"
  by (auto simp: skipped_def entry_def split: option.splits)

lemma accumulate_entry:
  "accumulate ops t row =
     (case entry ops row of
        None \<Rightarrow> t
      | Some (p, v) \<Rightarrow>
          AList.update p
            (case map_of t p of
               None \<Rightarrow> (fadd ops (fzero ops) v, 1)
             | Some (tot, c) \<Rightarrow> (fadd ops tot v, c + 1)) t)"
  by (auto simp: accumulate_def entry_def Let_def split: option.splits prod.splits)

lemma position_values_Cons:
  "position_values ops (r # es) p =
     (case entry ops r of
        None \<Rightarrow> position_values ops es p
      | Some (q, v) \<Rightarrow>
          if q = p then v # position_values ops es p else position_values ops es p)"
  by (auto simp: position_values_def map_filter_simps split: option.splits)

lemma totals_lookup:
  "map_of (foldl (accumulate ops) t es) p =
     (if position_values ops es p = [] then map_of t p
      else Some
        (foldl (fadd ops) (case map_of t p of None \<Rightarrow> fzero ops | Some (tot, c) \<Rightarrow> tot)
           (position_values ops es p),
         (case map_of t p of None \<Rightarrow> 0 | Some (tot, c) \<Rightarrow> c)
           + length (position_values ops es p)))"
proof (induction es arbitrary: t)
  case Nil
  then show ?case by (simp add: position_values_def map_filter_simps)
next
  case (Cons r es)
  note IH = Cons.IH [of "accumulate ops t r"]
  show ?case
  proof (cases "entry ops r")
    case None
    then have "accumulate ops t r = t"
      by (simp add: accumulate_entry)
    with None IH show ?thesis
      by (simp add: position_values_Cons)
  next
    case (Some e)
    obtain q v where e: "e = (q, v)" by (cases e)
    have a: "accumulate ops t r =
        AList.update q
          (case map_of t q of
             None \<Rightarrow> (fadd ops (fzero ops) v, 1)
           | Some (tot, c) \<Rightarrow> (fadd ops tot v, c + 1)) t"
      using Some e by (simp add: accumulate_entry)
    show ?thesis
    proof (cases "q = p")
      case True
      with Some e IH show ?thesis
        by (simp add: a position_values_Cons update_conv' split: option.splits)
    next
      case False
      with Some e IH show ?thesis
        by (simp add: a position_values_Cons update_conv')
    qed
  qed
qed

lemma totals_distinct:
  "distinct (map fst t) \<Longrightarrow> distinct (map fst (foldl (accumulate ops) t es))"
proof (induction es arbitrary: t)
  case Nil
  then show ?case by simp
next
  case (Cons r es)
  from Cons.prems have "distinct (map fst (accumulate ops t r))"
    by (simp add: accumulate_entry [of ops t r] distinct_update split: option.splits)
  then show ?case
    using Cons.IH [of "accumulate ops t r"] by simp
qed

lemma totals_keys:
  "set (map fst (foldl (accumulate ops) t es))
     = set (map fst t) \<union> set (map fst (List.map_filter (entry ops) es))"
proof (induction es arbitrary: t)
  case Nil
  then show ?case by (simp add: map_filter_simps)
next
  case (Cons r es)
  have "set (map fst (accumulate ops t r))
      = set (map fst t) \<union> (case entry ops r of None \<Rightarrow> {} | Some e \<Rightarrow> {fst e})"
    by (auto simp: accumulate_entry [of ops t r] dom_update split: option.splits)
  then show ?case
    using Cons.IH [of "accumulate ops t r"]
    by (auto simp: map_filter_simps split: option.splits)
qed

lemma totals_empty_iff:
  "(foldl (accumulate ops) [] es = []) = (\<forall>r\<in>set es. entry ops r = None)"
proof -
  have "(foldl (accumulate ops) [] es = []) = (set (map fst (foldl (accumulate ops) [] es)) = {})"
    by simp
  also have "\<dots> = (List.map_filter (entry ops) es = [])"
    by (simp only: totals_keys) simp
  also have "\<dots> = (\<forall>r\<in>set es. entry ops r = None)"
    by (induction es) (auto simp: map_filter_simps split: option.splits)
  finally show ?thesis .
qed

lemma totals_keys_empty:
  "set (map fst (foldl (accumulate ops) [] es)) = set (position_keys ops es)"
  by (simp only: totals_keys position_keys_def) simp

lemma totals_member:
  assumes "(p, tot, c) \<in> set (foldl (accumulate ops) [] es)"
  shows "tot = foldl (fadd ops) (fzero ops) (position_values ops es p)
       \<and> c = length (position_values ops es p) \<and> 0 < c"
proof -
  have "distinct (map fst (foldl (accumulate ops) [] es))"
    by (rule totals_distinct) simp
  with assms have "map_of (foldl (accumulate ops) [] es) p = Some (tot, c)"
    by simp
  then show ?thesis
    by (auto simp: totals_lookup split: if_splits)
qed

lemma collect_map:
  "\<forall>x\<in>set xs. f x = Inr (g x) \<Longrightarrow> collect f xs = Inr (map g xs)"
  by (induction xs) simp_all

lemma average_rows:
  "collect (average_row ops) (foldl (accumulate ops) [] es)
     = Inr (map (\<lambda>x. expected_row ops es (fst x)) (foldl (accumulate ops) [] es))"
proof (rule collect_map, rule ballI)
  fix x
  assume x: "x \<in> set (foldl (accumulate ops) [] es)"
  obtain p tot c where x': "x = (p, tot, c)" by (cases x)
  from x x' have "(p, tot, c) \<in> set (foldl (accumulate ops) [] es)"
    by simp
  then have m: "tot = foldl (fadd ops) (fzero ops) (position_values ops es p)
       \<and> c = length (position_values ops es p) \<and> 0 < c"
    by (rule totals_member)
  then have "0 < c" by (elim conjE)
  then have "c \<noteq> 0" by simp
  then have "average_row ops (p, tot, c)
      = Inr [Text p, Num (fround2 ops (fdiv_count ops tot c))]"
    by (simp add: average_row_def)
  also have "[Text p, Num (fround2 ops (fdiv_count ops tot c))] = expected_row ops es p"
    using m by (simp add: expected_row_def average_def)
  finally show "average_row ops x = Inr (expected_row ops es (fst x))"
    by (simp add: x')
qed

lemma row_keys:
  "collect (row_key ops) (map (expected_row ops es) ps) = Inr (map (expected_key ops es) ps)"
  by (induction ps) (simp_all add: row_key_def expected_row_def expected_key_def)

lemma list_sort_expected:
  "list_sort (key_lt ops) (row_key ops) (map (expected_row ops es) ps)
     = Inr (map snd (foldr (insort_lt (key_lt ops))
              (map (\<lambda>p. (expected_key ops es p, expected_row ops es p)) ps) []))"
  by (simp add: list_sort_def row_keys zip_map_map zip_same_conv_map comp_def)

lemma performance_report_result:
  "\<exists>ps. distinct ps \<and> set ps = set (position_keys ops es) \<and>
     performance_report ops es =
       (if \<forall>r\<in>set es. entry ops r = None then Inl (ReportError NoValidData)
        else Inr \<lparr>headers = [''position'', ''performance''],
                  rows = map snd (foldr (insort_lt (key_lt ops))
                           (map (\<lambda>p. (expected_key ops es p, expected_row ops es p)) ps) [])\<rparr>)"
proof -
  define ps where "ps = map fst (foldl (accumulate ops) [] es)"
  have d: "distinct ps"
    unfolding ps_def by (rule totals_distinct) simp
  have k: "set ps = set (position_keys ops es)"
    unfolding ps_def by (rule totals_keys_empty)
  have r: "collect (average_row ops) (foldl (accumulate ops) [] es)
      = Inr (map (expected_row ops es) ps)"
    by (simp add: average_rows ps_def)
  have "performance_report ops es =
       (if \<forall>r\<in>set es. entry ops r = None then Inl (ReportError NoValidData)
        else Inr \<lparr>headers = [''position'', ''performance''],
                  rows = map snd (foldr (insort_lt (key_lt ops))
                           (map (\<lambda>p. (expected_key ops es p, expected_row ops es p)) ps) [])\<rparr>)"
    by (simp add: performance_report_def Let_def totals_empty_iff r list_sort_expected)
  with d k show ?thesis
    by blast
qed

lemma mset_insort_lt: "mset (insort_lt lt x ys) = add_mset x (mset ys)"
  by (induction ys) simp_all

lemma mset_foldr_insort_lt: "mset (foldr (insort_lt lt) xs []) = mset xs"
  by (induction xs) (simp_all add: mset_insort_lt)

lemma set_sorted_rows:
  "set (map snd (foldr (insort_lt lt) (map (\<lambda>p. (k p, r p)) ps) [])) = r ` set ps"
proof -
  have "mset (map snd (foldr (insort_lt lt) (map (\<lambda>p. (k p, r p)) ps) []))
      = mset (map r ps)"
    by (simp add: mset_foldr_insort_lt multiset.map_comp comp_def)
  then have "set (map snd (foldr (insort_lt lt) (map (\<lambda>p. (k p, r p)) ps) []))
      = set (map r ps)"
    by (rule mset_eq_setD)
  then show ?thesis by simp
qed

lemma length_insort_lt: "length (insort_lt lt x ys) = Suc (length ys)"
  by (induction ys) simp_all

lemma length_sorted_rows:
  "length (foldr (insort_lt lt) xs []) = length xs"
  by (induction xs) (simp_all add: length_insort_lt)

lemma accumulate_skipped: "skipped ops r \<Longrightarrow> accumulate ops t r = t"
  by (simp add: skipped_entry accumulate_entry)

lemma position_keys_empty_iff:
  "(position_keys ops es = []) = (\<forall>r\<in>set es. entry ops r = None)"
  using totals_keys_empty [of ops es] totals_empty_iff [of ops es]
  by (metis list.map_disc_iff set_empty)

lemma set_insort_lt: "set (insort_lt lt x ys) = insert x (set ys)"
  by (induction ys) auto

lemma set_foldr_insort_lt: "set (foldr (insort_lt lt) xs []) = set xs"
  by (induction xs) (simp_all add: set_insort_lt)

lemma sorted_insort_lt:
  assumes asym: "\<forall>a\<in>A. \<forall>b\<in>A. lt a b \<longrightarrow> \<not> lt b a"
    and ntrans: "\<forall>a\<in>A. \<forall>b\<in>A. \<forall>c\<in>A. \<not> lt b a \<longrightarrow> \<not> lt c b \<longrightarrow> \<not> lt c a"
  shows "fst x \<in> A \<Longrightarrow> fst ` set ys \<subseteq> A \<Longrightarrow>
         sorted_wrt (\<lambda>u v. \<not> lt (fst v) (fst u)) ys \<Longrightarrow>
         sorted_wrt (\<lambda>u v. \<not> lt (fst v) (fst u)) (insort_lt lt x ys)"
proof (induction ys)
  case Nil
  then show ?case by simp
next
  case (Cons y ys)
  from Cons.prems have y: "fst y \<in> A" and ys: "fst ` set ys \<subseteq> A"
    and s: "sorted_wrt (\<lambda>u v. \<not> lt (fst v) (fst u)) ys"
    and ylow: "\<forall>z\<in>set ys. \<not> lt (fst z) (fst y)"
    by auto
  show ?case
  proof (cases "lt (fst y) (fst x)")
    case True
    with asym Cons.prems(1) y have "\<not> lt (fst x) (fst y)"
      by blast
    with True ylow Cons.IH [OF Cons.prems(1) ys s] show ?thesis
      by (simp add: set_insort_lt)
  next
    case False
    have "\<not> lt (fst z) (fst x)" if "z \<in> set ys" for z
    proof -
      from that ys have "fst z \<in> A" by auto
      moreover from that ylow have "\<not> lt (fst z) (fst y)" by simp
      ultimately show ?thesis
        using ntrans Cons.prems(1) y False by blast
    qed
    with False s ylow show ?thesis
      by simp
  qed
qed

lemma sorted_foldr_insort_lt:
  assumes asym: "\<forall>a\<in>A. \<forall>b\<in>A. lt a b \<longrightarrow> \<not> lt b a"
    and ntrans: "\<forall>a\<in>A. \<forall>b\<in>A. \<forall>c\<in>A. \<not> lt b a \<longrightarrow> \<not> lt c b \<longrightarrow> \<not> lt c a"
  shows "fst ` set xs \<subseteq> A \<Longrightarrow>
         sorted_wrt (\<lambda>u v. \<not> lt (fst v) (fst u)) (foldr (insort_lt lt) xs [])"
proof (induction xs)
  case Nil
  then show ?case by simp
next
  case (Cons x xs)
  then have "sorted_wrt (\<lambda>u v. \<not> lt (fst v) (fst u)) (foldr (insort_lt lt) xs [])"
    by simp
  moreover from Cons.prems have "fst x \<in> A" "fst ` set (foldr (insort_lt lt) xs []) \<subseteq> A"
    by (simp_all add: set_foldr_insort_lt)
  ultimately show ?case
    using sorted_insort_lt [OF asym ntrans] by simp
qed

text \<open>On ordered floats, the comparison of the keys is the one of the rows.\<close>

lemma row_le_key_lt:
  assumes "ordered_floats ops A" "a1 \<in> A" "a2 \<in> A"
  shows "row_le ops [Text p1, Num a1] [Text p2, Num a2]
       = (\<not> key_lt ops (fneg ops a2, p2) (fneg ops a1, p1))"
proof -
  from assms have 1: "feq ops a2 a1 \<or> flt ops a2 a1 \<or> flt ops a1 a2"
    and 2: "\<not> (flt ops a2 a1 \<and> flt ops a1 a2)"
    and 3: "\<not> (feq ops a2 a1 \<and> flt ops a2 a1)"
    and 4: "\<not> (feq ops a1 a2 \<and> flt ops a1 a2)"
    and 5: "feq ops a2 a1 = feq ops a1 a2"
    and 6: "flt ops (fneg ops a2) (fneg ops a1) = flt ops a1 a2"
    and 7: "feq ops (fneg ops a2) (fneg ops a1) = feq ops a2 a1"
    unfolding ordered_floats_def by blast+
  show ?thesis
    unfolding row_le_def key_lt_def using 1 2 3 4 5 6 7
    by (auto simp: not_less)
qed

lemma row_le_trans:
  assumes "ordered_floats ops A" "a1 \<in> A" "a2 \<in> A" "a3 \<in> A"
    and "row_le ops [Text p1, Num a1] [Text p2, Num a2]"
    and "row_le ops [Text p2, Num a2] [Text p3, Num a3]"
  shows "row_le ops [Text p1, Num a1] [Text p3, Num a3]"
proof -
  from assms(1-4) have t: "flt ops a3 a2 \<and> flt ops a2 a1 \<longrightarrow> flt ops a3 a1"
    "feq ops a1 a2 \<and> feq ops a2 a3 \<longrightarrow> feq ops a1 a3"
    "feq ops a3 a2 \<and> flt ops a2 a1 \<longrightarrow> flt ops a3 a1"
    "flt ops a3 a2 \<and> feq ops a2 a1 \<longrightarrow> flt ops a3 a1"
    "feq ops a1 a2 \<longrightarrow> feq ops a2 a1" "feq ops a2 a3 \<longrightarrow> feq ops a3 a2"
    unfolding ordered_floats_def by blast+
  with assms(5,6) show ?thesis
    unfolding row_le_def by auto
qed

lemma row_le_antisym:
  assumes "ordered_floats ops A" "a1 \<in> A" "a2 \<in> A"
    and "row_le ops [Text p1, Num a1] [Text p2, Num a2]"
    and "row_le ops [Text p2, Num a2] [Text p1, Num a1]"
  shows "p1 = p2"
proof -
  from assms(1-3) have "\<not> (flt ops a2 a1 \<and> flt ops a1 a2)"
    "\<not> (feq ops a2 a1 \<and> flt ops a2 a1)" "\<not> (feq ops a1 a2 \<and> flt ops a1 a2)"
    unfolding ordered_floats_def by blast+
  with assms(4,5) show ?thesis
    unfolding row_le_def by auto
qed

lemma row_le_total:
  assumes "ordered_floats ops A" "a1 \<in> A" "a2 \<in> A"
  shows "row_le ops [Text p1, Num a1] [Text p2, Num a2]
       \<or> row_le ops [Text p2, Num a2] [Text p1, Num a1]"
proof -
  from assms have "feq ops a1 a2 \<or> flt ops a1 a2 \<or> flt ops a2 a1"
    "feq ops a1 a2 \<longrightarrow> feq ops a2 a1"
    unfolding ordered_floats_def by blast+
  then show ?thesis
    unfolding row_le_def by auto
qed

text \<open>On the instance, the row of a NaN average compares with no row, in either direction.\<close>

lemma row_le_nan:
  "\<not> row_le xfloat_ops [Text p, Num NaN] [Text q, Num a]
   \<and> \<not> row_le xfloat_ops [Text q, Num a] [Text p, Num NaN]"
  by (cases a) (simp_all add: row_le_def xfloat_ops_def xeq_def)

lemma averages_expected:
  "set (averages (map (expected_row ops es) ps))
     = (\<lambda>p. average ops (position_values ops es p)) ` set ps"
  by (induction ps)
    (simp_all add: averages_def map_filter_simps row_average_def expected_row_def)

lemma set_averages_cong: "set rs = set rs' \<Longrightarrow> set (averages rs) = set (averages rs')"
  by (auto simp: averages_def map_filter_def)

lemma sorted_rows_expected:
  assumes ord: "ordered_floats ops ((\<lambda>p. average ops (position_values ops es p)) ` set ps)"
  shows "sorted_wrt (row_le ops)
           (map snd (foldr (insort_lt (key_lt ops))
              (map (\<lambda>p. (expected_key ops es p, expected_row ops es p)) ps) []))"
proof -
  let ?avg = "\<lambda>p. average ops (position_values ops es p)"
  let ?A = "?avg ` set ps"
  let ?K = "expected_key ops es ` set ps"
  let ?xs = "map (\<lambda>p. (expected_key ops es p, expected_row ops es p)) ps"
  let ?L = "foldr (insort_lt (key_lt ops)) ?xs []"
  have le: "row_le ops (expected_row ops es p) (expected_row ops es q)
      = (\<not> key_lt ops (expected_key ops es q) (expected_key ops es p))"
    if "p \<in> set ps" "q \<in> set ps" for p q
    unfolding expected_row_def expected_key_def
    by (rule row_le_key_lt [OF ord]) (use that in auto)
  have tot: "row_le ops (expected_row ops es p) (expected_row ops es q)
      \<or> row_le ops (expected_row ops es q) (expected_row ops es p)"
    if "p \<in> set ps" "q \<in> set ps" for p q
    unfolding expected_row_def
    by (rule row_le_total [OF ord]) (use that in auto)
  have tr: "row_le ops (expected_row ops es p) (expected_row ops es s)"
    if "p \<in> set ps" "q \<in> set ps" "s \<in> set ps"
      "row_le ops (expected_row ops es p) (expected_row ops es q)"
      "row_le ops (expected_row ops es q) (expected_row ops es s)" for p q s
    using that(4,5) unfolding expected_row_def
    by (rule row_le_trans [OF ord, rotated 3]) (use that in auto)
  have asym: "\<forall>a\<in>?K. \<forall>b\<in>?K. key_lt ops a b \<longrightarrow> \<not> key_lt ops b a"
    using le tot by blast
  have ntrans: "\<forall>a\<in>?K. \<forall>b\<in>?K. \<forall>c\<in>?K.
      \<not> key_lt ops b a \<longrightarrow> \<not> key_lt ops c b \<longrightarrow> \<not> key_lt ops c a"
  proof (intro ballI impI)
    fix a b c
    assume "a \<in> ?K" "b \<in> ?K" "c \<in> ?K"
    then obtain p q s where p: "p \<in> set ps" "a = expected_key ops es p"
      and q: "q \<in> set ps" "b = expected_key ops es q"
      and s: "s \<in> set ps" "c = expected_key ops es s"
      by blast
    assume "\<not> key_lt ops b a" "\<not> key_lt ops c b"
    with p q s have "row_le ops (expected_row ops es p) (expected_row ops es q)"
      "row_le ops (expected_row ops es q) (expected_row ops es s)"
      by (simp_all add: le)
    with p q s have "row_le ops (expected_row ops es p) (expected_row ops es s)"
      using tr by blast
    with p s show "\<not> key_lt ops c a"
      by (simp add: le)
  qed
  have "fst ` set ?xs \<subseteq> ?K"
    by auto
  then have sL: "sorted_wrt (\<lambda>u v. \<not> key_lt ops (fst v) (fst u)) ?L"
    by (rule sorted_foldr_insort_lt [OF asym ntrans])
  have mem: "\<exists>p\<in>set ps. u = (expected_key ops es p, expected_row ops es p)" if "u \<in> set ?L" for u
    using that by (auto simp: set_foldr_insort_lt)
  have "sorted_wrt (\<lambda>u v. row_le ops (snd u) (snd v)) ?L"
  proof (rule sorted_wrt_mono_rel [OF _ sL])
    fix u v
    assume "u \<in> set ?L" "v \<in> set ?L" "\<not> key_lt ops (fst v) (fst u)"
    with mem [of u] mem [of v] show "row_le ops (snd u) (snd v)"
      by (auto simp: le)
  qed
  then show ?thesis
    by (simp add: sorted_wrt_map)
qed

section \<open>The claims on aggregation\<close>

text \<open>
  C1: the rows of the report are, one for each distinct position key of the records that
  are not skipped (so a position with no parseable performance has no row), the key with
  the average of the position: the float sum, from \<open>0.0\<close> and in the order of the records,
  of the parsed performance values of the position's records that are not skipped, divided
  by their number and rounded by \<open>round(x, 2)\<close>. There is a report as soon as there is such
  a key, and a skipped record changes nothing in the result.
\<close>

theorem performance_report_averages:
  "(position_keys ops es \<noteq> [] \<longrightarrow> (\<exists>res. performance_report ops es = Inr res))
   \<and> (\<forall>res. performance_report ops es = Inr res \<longrightarrow>
        set (rows res)
          = (\<lambda>p. [Text p, Num (average ops (position_values ops es p))])
              ` set (position_keys ops es)
        \<and> length (rows res) = length (position_keys ops es))
   \<and> (\<forall>es1 r es2. es = es1 @ r # es2 \<and> skipped ops r \<longrightarrow>
        performance_report ops es = performance_report ops (es1 @ es2))"
proof (intro conjI allI impI)
  assume "position_keys ops es \<noteq> []"
  then have "\<not> (\<forall>r\<in>set es. entry ops r = None)"
    by (simp add: position_keys_empty_iff)
  with performance_report_result [of ops es]
  show "\<exists>res. performance_report ops es = Inr res"
    by auto
next
  fix res
  assume res: "performance_report ops es = Inr res"
  obtain ps where ps: "distinct ps" "set ps = set (position_keys ops es)"
    and r: "performance_report ops es =
       (if \<forall>r\<in>set es. entry ops r = None then Inl (ReportError NoValidData)
        else Inr \<lparr>headers = [''position'', ''performance''],
                  rows = map snd (foldr (insort_lt (key_lt ops))
                           (map (\<lambda>p. (expected_key ops es p, expected_row ops es p)) ps) [])\<rparr>)"
    using performance_report_result [of ops es] by blast
  from res r have rows: "rows res = map snd (foldr (insort_lt (key_lt ops))
      (map (\<lambda>p. (expected_key ops es p, expected_row ops es p)) ps) [])"
    by (auto split: if_splits)
  show "set (rows res)
      = (\<lambda>p. [Text p, Num (average ops (position_values ops es p))]) ` set (position_keys ops es)"
    unfolding rows set_sorted_rows ps(2) by (simp add: expected_row_def [abs_def])
  have "length (rows res) = length ps"
    unfolding rows by (simp add: length_sorted_rows)
  also have "\<dots> = card (set (position_keys ops es))"
    using ps by (metis distinct_card)
  also have "\<dots> = length (position_keys ops es)"
    by (rule distinct_card) (simp add: position_keys_def)
  finally show "length (rows res) = length (position_keys ops es)" .
next
  fix es1 r es2
  assume "es = es1 @ r # es2 \<and> skipped ops r"
  then show "performance_report ops es = performance_report ops (es1 @ es2)"
    by (simp add: performance_report_def accumulate_skipped)
qed

theorem performance_report_averages_witness:
  "position_keys xfloat_ops example_employees \<noteq> []
   \<and> (\<exists>res. performance_report xfloat_ops example_employees = Inr res)
   \<and> set [[Text ''Backend Developer'', Num (Finite (483 / 100))],
           [Text ''QA Engineer'', Num (Finite (22 / 5))]]
       = (\<lambda>p. [Text p, Num (average xfloat_ops (position_values xfloat_ops example_employees p))])
           ` set (position_keys xfloat_ops example_employees)
   \<and> skipped xfloat_ops (employee_of ''QA Engineer'' ''n/a'')
   \<and> performance_report xfloat_ops (example_employees @ [employee_of ''QA Engineer'' ''n/a''])
       = performance_report xfloat_ops example_employees"
proof -
  note t = performance_report_averages [of xfloat_ops]
  have k: "position_keys xfloat_ops example_employees \<noteq> []"
    by code_simp
  with t [of example_employees, THEN conjunct1]
  have e: "\<exists>res. performance_report xfloat_ops example_employees = Inr res"
    by simp
  have v: "performance_report xfloat_ops example_employees
      = Inr \<lparr>headers = [''position'', ''performance''],
             rows = [[Text ''Backend Developer'', Num (Finite (483 / 100))],
                     [Text ''QA Engineer'', Num (Finite (22 / 5))]]\<rparr>"
    by code_simp
  have r: "set [[Text ''Backend Developer'', Num (Finite (483 / 100))],
           [Text ''QA Engineer'', Num (Finite (22 / 5))]]
       = (\<lambda>p. [Text p, Num (average xfloat_ops (position_values xfloat_ops example_employees p))])
           ` set (position_keys xfloat_ops example_employees)"
    using t [of example_employees, THEN conjunct2, THEN conjunct1, rule_format, OF v]
    by simp
  have s: "skipped xfloat_ops (employee_of ''QA Engineer'' ''n/a'')"
    by code_simp
  then have "performance_report xfloat_ops (example_employees @ [employee_of ''QA Engineer'' ''n/a''])
       = performance_report xfloat_ops (example_employees @ [])"
    using t [of "example_employees @ [employee_of ''QA Engineer'' ''n/a'']",
        THEN conjunct2, THEN conjunct2, rule_format,
        of example_employees "employee_of ''QA Engineer'' ''n/a''" "[]"]
    by simp
  with k e r s show ?thesis by simp
qed

text \<open>
  C2, as stated, fails: a performance \<open>nan\<close> is read as NaN, the average of its position is
  NaN, and the comparison of the specification holds in neither direction between the row
  of that position and another row, so it is not total on the rows of the report and the
  report is not sorted by it. (The list has two rows, on which the sort of the model is
  the one of the interpreter.)
\<close>

theorem sorted_report_counterexample:
  "performance_report xfloat_ops [employee_of ''A'' ''nan'', employee_of ''B'' ''1'']
     = Inr \<lparr>headers = [''position'', ''performance''],
            rows = [[Text ''A'', Num NaN], [Text ''B'', Num (Finite 1)]]\<rparr>
   \<and> \<not> sorted_wrt (row_le xfloat_ops) [[Text ''A'', Num NaN], [Text ''B'', Num (Finite 1)]]
   \<and> \<not> (row_le xfloat_ops [Text ''A'', Num NaN] [Text ''B'', Num (Finite 1)]
         \<or> row_le xfloat_ops [Text ''B'', Num (Finite 1)] [Text ''A'', Num NaN])"
proof -
  have "performance_report xfloat_ops [employee_of ''A'' ''nan'', employee_of ''B'' ''1'']
     = Inr \<lparr>headers = [''position'', ''performance''],
            rows = [[Text ''A'', Num NaN], [Text ''B'', Num (Finite 1)]]\<rparr>"
    by code_simp
  moreover have "\<not> row_le xfloat_ops [Text ''A'', Num NaN] [Text ''B'', Num (Finite 1)]"
    by code_simp
  moreover have "\<not> row_le xfloat_ops [Text ''B'', Num (Finite 1)] [Text ''A'', Num NaN]"
    by code_simp
  ultimately show ?thesis
    by simp
qed

text \<open>
  C2, amended: for a report whose averages \<open>==\<close> and \<open><\<close> order totally, negation reversing
  the order (none of them is NaN), the rows are sorted by the comparison of the
  specification, the greater average first and of equal averages the smaller name first;
  on the rows of the report that comparison is total, antisymmetric and transitive; and of
  two rows with equal averages the one with the smaller name comes first.
\<close>

theorem sorted_report:
  assumes "performance_report ops es = Inr res"
    and "ordered_floats ops (set (averages (rows res)))"
  shows "sorted_wrt (row_le ops) (rows res)
       \<and> (\<forall>r1\<in>set (rows res). \<forall>r2\<in>set (rows res).
            (row_le ops r1 r2 \<or> row_le ops r2 r1)
            \<and> (row_le ops r1 r2 \<and> row_le ops r2 r1 \<longrightarrow> r1 = r2)
            \<and> (\<forall>r3\<in>set (rows res). row_le ops r1 r2 \<and> row_le ops r2 r3 \<longrightarrow> row_le ops r1 r3))
       \<and> (\<forall>i j p1 a1 p2 a2.
            i < j \<and> j < length (rows res)
            \<and> rows res ! i = [Text p1, Num a1] \<and> rows res ! j = [Text p2, Num a2]
            \<and> feq ops a1 a2 \<longrightarrow> p1 < p2)"
proof -
  let ?avg = "\<lambda>p. average ops (position_values ops es p)"
  obtain ps where ps: "distinct ps"
    and r: "performance_report ops es =
       (if \<forall>r\<in>set es. entry ops r = None then Inl (ReportError NoValidData)
        else Inr \<lparr>headers = [''position'', ''performance''],
                  rows = map snd (foldr (insort_lt (key_lt ops))
                           (map (\<lambda>p. (expected_key ops es p, expected_row ops es p)) ps) [])\<rparr>)"
    using performance_report_result [of ops es] by blast
  from assms(1) r have rows: "rows res = map snd (foldr (insort_lt (key_lt ops))
      (map (\<lambda>p. (expected_key ops es p, expected_row ops es p)) ps) [])"
    by (auto split: if_splits)
  have setrows: "set (rows res) = expected_row ops es ` set ps"
    unfolding rows by (rule set_sorted_rows)
  then have "set (averages (rows res)) = set (averages (map (expected_row ops es) ps))"
    by (intro set_averages_cong) simp
  then have A: "set (averages (rows res)) = ?avg ` set ps"
    by (simp only: averages_expected)
  with assms(2) have ord: "ordered_floats ops (?avg ` set ps)"
    by simp
  have sorted: "sorted_wrt (row_le ops) (rows res)"
    unfolding rows by (rule sorted_rows_expected [OF ord])
  have order: "(row_le ops r1 r2 \<or> row_le ops r2 r1)
      \<and> (row_le ops r1 r2 \<and> row_le ops r2 r1 \<longrightarrow> r1 = r2)
      \<and> (\<forall>r3\<in>set (rows res). row_le ops r1 r2 \<and> row_le ops r2 r3 \<longrightarrow> row_le ops r1 r3)"
    if "r1 \<in> set (rows res)" "r2 \<in> set (rows res)" for r1 r2
  proof -
    from that setrows obtain p q where p: "p \<in> set ps" "r1 = [Text p, Num (?avg p)]"
      and q: "q \<in> set ps" "r2 = [Text q, Num (?avg q)]"
      by (auto simp: expected_row_def)
    have "row_le ops r1 r2 \<or> row_le ops r2 r1"
      unfolding p q by (rule row_le_total [OF ord]) (use p q in auto)
    moreover have "r1 = r2" if "row_le ops r1 r2" "row_le ops r2 r1"
    proof -
      from that have "p = q"
        unfolding p q by (rule row_le_antisym [OF ord, rotated 2]) (use p q in auto)
      with p q show ?thesis by simp
    qed
    moreover have "row_le ops r1 r3"
      if "r3 \<in> set (rows res)" "row_le ops r1 r2" "row_le ops r2 r3" for r3
    proof -
      from that(1) setrows obtain s where s: "s \<in> set ps" "r3 = [Text s, Num (?avg s)]"
        by (auto simp: expected_row_def)
      from that(2,3) show ?thesis
        unfolding p q s by (rule row_le_trans [OF ord, rotated 3]) (use p q s in auto)
    qed
    ultimately show ?thesis by blast
  qed
  have "inj (expected_row ops es)"
    by (auto simp: inj_def expected_row_def)
  with ps have "distinct (map (expected_row ops es) ps)"
    by (simp add: distinct_map inj_on_subset [OF _ subset_UNIV])
  moreover have "mset (rows res) = mset (map (expected_row ops es) ps)"
    unfolding rows by (simp add: mset_foldr_insort_lt multiset.map_comp comp_def)
  ultimately have drows: "distinct (rows res)"
    by (metis mset_eq_imp_distinct_iff)
  have tie: "p1 < p2"
    if "i < j" "j < length (rows res)" "rows res ! i = [Text p1, Num a1]"
      "rows res ! j = [Text p2, Num a2]" "feq ops a1 a2" for i j p1 a1 p2 a2
  proof -
    from that have mem: "[Text p1, Num a1] \<in> set (rows res)" "[Text p2, Num a2] \<in> set (rows res)"
      by (metis nth_mem order_less_trans)+
    with setrows have a: "a1 = ?avg p1" "a2 = ?avg p2" "p1 \<in> set ps" "p2 \<in> set ps"
      by (auto simp: expected_row_def)
    with ord have "feq ops a1 a2 \<longrightarrow> feq ops a2 a1" "\<not> (feq ops a2 a1 \<and> flt ops a2 a1)"
      unfolding ordered_floats_def by blast+
    moreover from sorted that have "row_le ops [Text p1, Num a1] [Text p2, Num a2]"
      by (metis sorted_wrt_iff_nth_less)
    ultimately have "p1 \<le> p2"
      using that(5) by (auto simp: row_le_def)
    moreover have "p1 \<noteq> p2"
    proof
      assume "p1 = p2"
      with a that have eq: "rows res ! i = rows res ! j" by simp
      from that(1,2) have "i < length (rows res)" by simp
      from drows this that(2) have "(rows res ! i = rows res ! j) = (i = j)"
        by (rule nth_eq_iff_index_eq)
      with eq that(1) show False by simp
    qed
    ultimately show ?thesis by simp
  qed
  from sorted order tie show ?thesis
    by blast
qed

theorem sorted_report_witness:
  "performance_report xfloat_ops
       [employee_of ''B'' ''4.5'', employee_of ''A'' ''4.5'', employee_of ''C'' ''7'']
     = Inr \<lparr>headers = [''position'', ''performance''],
            rows = [[Text ''C'', Num (Finite 7)], [Text ''A'', Num (Finite (9 / 2))],
                    [Text ''B'', Num (Finite (9 / 2))]]\<rparr>
   \<and> ordered_floats xfloat_ops (set [Finite 7, Finite (9 / 2), Finite (9 / 2)])
   \<and> sorted_wrt (row_le xfloat_ops)
        [[Text ''C'', Num (Finite 7)], [Text ''A'', Num (Finite (9 / 2))],
         [Text ''B'', Num (Finite (9 / 2))]]"
proof -
  let ?rows = "[[Text ''C'', Num (Finite 7)], [Text ''A'', Num (Finite (9 / 2))],
                [Text ''B'', Num (Finite (9 / 2))]]"
  have v: "performance_report xfloat_ops
       [employee_of ''B'' ''4.5'', employee_of ''A'' ''4.5'', employee_of ''C'' ''7'']
     = Inr \<lparr>headers = [''position'', ''performance''], rows = ?rows\<rparr>"
    by code_simp
  have a: "averages ?rows = [Finite 7, Finite (9 / 2), Finite (9 / 2)]"
    by code_simp
  have o: "ordered_floats xfloat_ops (set [Finite 7, Finite (9 / 2), Finite (9 / 2)])"
    by code_simp
  then have "ordered_floats xfloat_ops
      (set (averages (rows \<lparr>headers = [''position'', ''performance''], rows = ?rows\<rparr>)))"
    by (simp add: a)
  from sorted_report [OF v this] have "sorted_wrt (row_le xfloat_ops) ?rows"
    by simp
  with v o show ?thesis
    by simp
qed

text \<open>
  C7: \<open>performance_report\<close> fails with \<open>NoValidData\<close> iff every record is skipped; with a
  record that is not skipped it returns a report, whatever the other records are.
\<close>

theorem no_valid_data_iff:
  "(performance_report ops es = Inl (ReportError NoValidData)) = (\<forall>r\<in>set es. skipped ops r)
   \<and> ((\<exists>r\<in>set es. \<not> skipped ops r) \<longrightarrow> (\<exists>res. performance_report ops es = Inr res))"
proof -
  obtain ps where r: "performance_report ops es =
       (if \<forall>r\<in>set es. entry ops r = None then Inl (ReportError NoValidData)
        else Inr \<lparr>headers = [''position'', ''performance''],
                  rows = map snd (foldr (insort_lt (key_lt ops))
                           (map (\<lambda>p. (expected_key ops es p, expected_row ops es p)) ps) [])\<rparr>)"
    using performance_report_result [of ops es] by blast
  show ?thesis
  proof (cases "\<forall>r\<in>set es. entry ops r = None")
    case True
    with r show ?thesis by (simp add: skipped_entry)
  next
    case False
    with r have "\<exists>res. performance_report ops es = Inr res" by simp
    with False show ?thesis by (auto simp: skipped_entry)
  qed
qed

theorem no_valid_data_iff_witness:
  "performance_report xfloat_ops [employee_of ''  '' ''4.5'', employee_of ''A'' ''abc'']
     = Inl (ReportError NoValidData)
   \<and> (\<exists>res. performance_report xfloat_ops
          [employee_of ''A'' ''abc'', employee_of ''A'' ''4.5'', employee_of [] ''1''] = Inr res)"
proof -
  have 1: "skipped xfloat_ops (employee_of ''  '' ''4.5'')"
    by code_simp
  have 2: "skipped xfloat_ops (employee_of ''A'' ''abc'')"
    by code_simp
  have 3: "\<not> skipped xfloat_ops (employee_of ''A'' ''4.5'')"
    by code_simp
  have "performance_report xfloat_ops [employee_of ''  '' ''4.5'', employee_of ''A'' ''abc'']
     = Inl (ReportError NoValidData)"
    using no_valid_data_iff
      [of xfloat_ops "[employee_of ''  '' ''4.5'', employee_of ''A'' ''abc'']", THEN conjunct1]
      1 2
    by simp
  moreover have "\<exists>res. performance_report xfloat_ops
          [employee_of ''A'' ''abc'', employee_of ''A'' ''4.5'', employee_of [] ''1''] = Inr res"
    using no_valid_data_iff
      [of xfloat_ops "[employee_of ''A'' ''abc'', employee_of ''A'' ''4.5'', employee_of [] ''1'']",
        THEN conjunct2]
      3
    by simp
  ultimately show ?thesis by simp
qed




end
